theory Spec2Isabelle
  imports Main "HOL-Library.AList" "HOL-Library.Sublist"
begin

section \<open>The order-processing stack\<close>

text \<open>
  The repository is one CDK stack, \<^verbatim>\<open>OrderProcessingStack\<close> (lib/order-processing-stack.ts).
  Embedded here are the constructs its workflow, queue, table and parameter rest on: the
  table, the queue with its dead-letter queue, the SSM parameter, the four Lambda functions,
  the grants, the SQS event source and the Step Functions state machine \<^verbatim>\<open>OrderWorkflow\<close>.
  Each is a value with the properties the source passes, in the order of the source. The
  bucket, the topic, the secret and the HTTP API appear only where a function's environment
  or a grant names them. What the platform does with a construct (running the states,
  applying a \<^verbatim>\<open>resultPath\<close>, redriving a queue, looking a parameter up) is a function that
  reads these values, so every name and number a theorem depends on is the source's.
\<close>

subsection \<open>JSON documents and reference paths\<close>

text \<open>
  State input and output are JSON values. An object keeps its fields in order, as an
  association list. Numbers are integers here: the documents below need no fractions.
\<close>

datatype json =
    JNull
  | JBool bool
  | JNum int
  | JStr string
  | JArr "json list"
  | JObj "(string \<times> json) list"

text \<open>
  The paths of the source, \<^verbatim>\<open>'$.validation'\<close>, \<^verbatim>\<open>'$.payment'\<close>, \<^verbatim>\<open>'$.Payload'\<close>, are reference
  paths in dot notation: \<^verbatim>\<open>$\<close> is the whole document and each \<^verbatim>\<open>.name\<close> selects a field.
\<close>

fun split_dots :: "string \<Rightarrow> string list" where
  "split_dots [] = [[]]"
| "split_dots (c # cs) =
     (if c = CHR ''.'' then [] # split_dots cs
      else (case split_dots cs of seg # segs \<Rightarrow> (c # seg) # segs | [] \<Rightarrow> [[c]]))"

definition reference_path :: "string \<Rightarrow> string list option" where
  "reference_path p =
     (case split_dots p of
        root # fields \<Rightarrow> if root = ''$'' \<and> [] \<notin> set fields then Some fields else None
      | [] \<Rightarrow> None)"

text \<open>Reading a path (\<^verbatim>\<open>outputPath\<close>): a missing field or a non-object on the way has no value.\<close>

fun get_path :: "string list \<Rightarrow> json \<Rightarrow> json option" where
  "get_path [] doc = Some doc"
| "get_path (f # fs) (JObj kvs) =
     (case map_of kvs f of Some v \<Rightarrow> get_path fs v | None \<Rightarrow> None)"
| "get_path (f # fs) _ = None"

text \<open>
  Writing a path (\<^verbatim>\<open>resultPath\<close>): \<^verbatim>\<open>$\<close> replaces the document; \<^verbatim>\<open>$.f\<close> sets field \<^verbatim>\<open>f\<close> of an
  object, replacing the field in place when it exists and adding it last otherwise; missing
  objects on the way are created. A document that is not an object has no field to set.
\<close>

fun put_path :: "string list \<Rightarrow> json \<Rightarrow> json \<Rightarrow> json option" where
  "put_path [] v doc = Some v"
| "put_path [f] v (JObj kvs) = Some (JObj (AList.update f v kvs))"
| "put_path (f # fs) v (JObj kvs) =
     (case put_path fs v (case map_of kvs f of Some sub \<Rightarrow> sub | None \<Rightarrow> JObj []) of
        Some sub' \<Rightarrow> Some (JObj (AList.update f sub' kvs))
      | None \<Rightarrow> None)"
| "put_path (f # fs) v _ = None"

subsection \<open>Durations\<close>

text \<open>\<^verbatim>\<open>cdk.Duration\<close>: an amount in a unit; \<^verbatim>\<open>Duration.minutes(5)\<close> is five minutes.\<close>

datatype time_unit = Seconds | Minutes | Hours

record duration =
  amount :: nat
  unit :: time_unit

definition Duration_minutes :: "nat \<Rightarrow> duration" where
  "Duration_minutes n = \<lparr>amount = n, unit = Minutes\<rparr>"

fun unit_seconds :: "time_unit \<Rightarrow> nat" where
  "unit_seconds Seconds = 1"
| "unit_seconds Minutes = 60"
| "unit_seconds Hours = 3600"

definition toSeconds :: "duration \<Rightarrow> nat" where
  "toSeconds d = amount d * unit_seconds (unit d)"

subsection \<open>The resources the workflow and the queue use\<close>

datatype attribute_type = STRING | NUMBER | BINARY

record table =
  tableName :: string
  partitionKey :: "string \<times> attribute_type"

definition ordersTable :: table where
  "ordersTable = \<lparr>tableName = ''Orders'', partitionKey = (''orderId'', STRING)\<rparr>"

text \<open>A queue names its dead-letter queue, if it has one, with the receive count that redrives.\<close>

record dead_letter_queue =
  dlqQueueName :: string
  maxReceiveCount :: nat

record queue =
  queueName :: string
  deadLetterQueue :: "dead_letter_queue option"

definition orderDlq :: queue where
  "orderDlq = \<lparr>queueName = ''order-dlq'', deadLetterQueue = None\<rparr>"

definition orderQueue :: queue where
  "orderQueue =
     \<lparr>queueName = ''order-queue'',
      deadLetterQueue = Some \<lparr>dlqQueueName = queueName orderDlq, maxReceiveCount = 3\<rparr>\<rparr>"

text \<open>\<^verbatim>\<open>ssm.StringParameter\<close>: a parameter of type String; its value is a string.\<close>

record string_parameter =
  parameterName :: string
  stringValue :: string
  description :: string

definition appConfigParam :: string_parameter where
  "appConfigParam =
     \<lparr>parameterName = ''/orders/config/max-items'',
      stringValue = ''100'',
      description = ''Maximum items per order''\<rparr>"

text \<open>
  A Lambda function. An environment value is a literal of the source or an attribute of
  another construct that is known only at deployment (an ARN, a URL, a generated name).
\<close>

datatype env_value = Literal string | Attribute string string

record lambda_function =
  functionName :: string
  runtime :: string
  handler :: string
  codeAsset :: string
  environment :: "(string \<times> env_value) list"

definition createOrderFn :: lambda_function where
  "createOrderFn =
     \<lparr>functionName = ''CreateOrderFunction'', runtime = ''nodejs20.x'',
      handler = ''index.handler'', codeAsset = ''lambda/create-order'',
      environment =
        [(''TABLE_NAME'', Literal (tableName ordersTable)),
         (''QUEUE_URL'', Attribute ''OrderQueue'' ''queueUrl'')]\<rparr>"

definition getOrderFn :: lambda_function where
  "getOrderFn =
     \<lparr>functionName = ''GetOrderFunction'', runtime = ''nodejs20.x'',
      handler = ''index.handler'', codeAsset = ''lambda/get-order'',
      environment = [(''TABLE_NAME'', Literal (tableName ordersTable))]\<rparr>"

definition processOrderFn :: lambda_function where
  "processOrderFn =
     \<lparr>functionName = ''ProcessOrderFunction'', runtime = ''nodejs20.x'',
      handler = ''index.handler'', codeAsset = ''lambda/process-order'',
      environment =
        [(''TABLE_NAME'', Literal (tableName ordersTable)),
         (''TOPIC_ARN'', Attribute ''OrderNotifications'' ''topicArn''),
         (''BUCKET_NAME'', Attribute ''ReceiptsBucket'' ''bucketName''),
         (''MAX_ITEMS_PARAM'', Literal (parameterName appConfigParam)),
         (''NOTIFICATION_SECRET_ARN'', Attribute ''NotificationApiKey'' ''secretArn'')]\<rparr>"

definition generateReceiptFn :: lambda_function where
  "generateReceiptFn =
     \<lparr>functionName = ''GenerateReceiptFunction'', runtime = ''nodejs20.x'',
      handler = ''index.handler'', codeAsset = ''lambda/generate-receipt'',
      environment = [(''BUCKET_NAME'', Attribute ''ReceiptsBucket'' ''bucketName'')]\<rparr>"

subsection \<open>The states of the workflow\<close>

text \<open>
  A state is a \<^verbatim>\<open>sfn.Pass\<close> with its fixed result, a \<^verbatim>\<open>tasks.LambdaInvoke\<close> with the function
  it invokes, or the \<^verbatim>\<open>sfn.Succeed\<close> state. There is no \<^verbatim>\<open>sfn.Fail\<close> state, no \<^verbatim>\<open>Choice\<close>, and no
  \<^verbatim>\<open>addCatch\<close> or \<^verbatim>\<open>addRetry\<close> in the source. The constructors fill in the defaults of the
  properties the source leaves out: both paths default to \<^verbatim>\<open>$\<close>.
\<close>

datatype state_body =
    Pass json
  | LambdaInvoke lambda_function
  | Succeed

record state =
  stateName :: string
  stateBody :: state_body
  resultPath :: string
  outputPath :: string
  nextState :: "string option"

definition sfn_Pass :: "string \<Rightarrow> json \<Rightarrow> string \<Rightarrow> state" where
  "sfn_Pass ident res rp =
     \<lparr>stateName = ident, stateBody = Pass res, resultPath = rp, outputPath = ''$'',
      nextState = None\<rparr>"

definition tasks_LambdaInvoke :: "string \<Rightarrow> lambda_function \<Rightarrow> string \<Rightarrow> state" where
  "tasks_LambdaInvoke ident fn outp =
     \<lparr>stateName = ident, stateBody = LambdaInvoke fn, resultPath = ''$'', outputPath = outp,
      nextState = None\<rparr>"

definition sfn_Succeed :: "string \<Rightarrow> state" where
  "sfn_Succeed ident =
     \<lparr>stateName = ident, stateBody = Succeed, resultPath = ''$'', outputPath = ''$'',
      nextState = None\<rparr>"

definition validateOrder :: state where
  "validateOrder =
     sfn_Pass ''ValidateOrder'' (JObj [(''validated'', JBool True)]) ''$.validation''"

definition processPayment :: state where
  "processPayment =
     sfn_Pass ''ProcessPayment'' (JObj [(''paymentStatus'', JStr ''SUCCESS'')]) ''$.payment''"

definition generateReceipt :: state where
  "generateReceipt = tasks_LambdaInvoke ''GenerateReceipt'' generateReceiptFn ''$.Payload''"

definition notifyCustomer :: state where
  "notifyCustomer = tasks_LambdaInvoke ''NotifyCustomer'' processOrderFn ''$.Payload''"

definition orderComplete :: state where
  "orderComplete = sfn_Succeed ''OrderComplete''"

text \<open>
  \<^verbatim>\<open>a.next(b)\<close> makes \<^verbatim>\<open>b\<close> the next state of the chain's end state and returns the chain that
  starts where \<^verbatim>\<open>a\<close> starts and ends with \<^verbatim>\<open>b\<close>. A chain is its start state's name and its
  states in the order they were linked.
\<close>

datatype chain = Chain string "state list"

fun link_end :: "state list \<Rightarrow> state \<Rightarrow> state list" where
  "link_end [] s = [s]"
| "link_end [e] s = [e\<lparr>nextState := Some (stateName s)\<rparr>, s]"
| "link_end (x # xs) s = x # link_end xs s"

definition start_chain :: "state \<Rightarrow> chain" where
  "start_chain s = Chain (stateName s) [s]"

fun chain_next :: "chain \<Rightarrow> state \<Rightarrow> chain" where
  "chain_next (Chain st ss) s = Chain st (link_end ss s)"

definition workflow_definition :: chain where
  "workflow_definition =
     chain_next (chain_next (chain_next (chain_next (start_chain validateOrder)
       processPayment) generateReceipt) notifyCustomer) orderComplete"

record state_machine =
  stateMachineName :: string
  states :: "state list"
  startAt :: string
  timeout :: "duration option"

fun StateMachine :: "string \<Rightarrow> chain \<Rightarrow> duration option \<Rightarrow> state_machine" where
  "StateMachine nm (Chain st ss) tmo =
     \<lparr>stateMachineName = nm, states = ss, startAt = st, timeout = tmo\<rparr>"

definition OrderWorkflow :: state_machine where
  "OrderWorkflow =
     StateMachine ''OrderWorkflow'' workflow_definition (Some (Duration_minutes 5))"

subsection \<open>Running the state machine\<close>

text \<open>
  What lies outside the stack is a parameter of every run: how a Lambda function answers a
  payload (an error name, or its response payload; the handlers are not part of the stack),
  and how many seconds a state takes on its input.
\<close>

record services =
  invoke :: "string \<Rightarrow> json \<Rightarrow> string + json"
  took :: "string \<Rightarrow> json \<Rightarrow> nat"

text \<open>
  An execution ends succeeded with its output, or failed. It fails when it runs longer than
  the machine's timeout (the service reports the error \<^verbatim>\<open>States.Timeout\<close>), when a task's
  function fails (the source adds no catch and no retry to a state; an error answer of
  \<open>invoke\<close> is the error the invocation ended with), or when a path cannot be applied to
  a document.
\<close>

datatype failure =
    Timeout
  | TaskFailed string string
  | ResultPathMatchFailure string
  | Runtime string

datatype outcome = Succeeded json | Failed failure

datatype config = Running string json nat | Done outcome

text \<open>
  The result of a state is written into its input at \<^verbatim>\<open>resultPath\<close>; \<^verbatim>\<open>outputPath\<close> then
  selects the state's output from that document.
\<close>

definition apply_paths :: "state \<Rightarrow> json \<Rightarrow> json \<Rightarrow> failure + json" where
  "apply_paths s input res =
     (case reference_path (resultPath s) of
        None \<Rightarrow> Inl (Runtime (stateName s))
      | Some rp \<Rightarrow>
          (case reference_path (outputPath s) of
             None \<Rightarrow> Inl (Runtime (stateName s))
           | Some outp \<Rightarrow>
               (case put_path rp res input of
                  None \<Rightarrow> Inl (ResultPathMatchFailure (stateName s))
                | Some merged \<Rightarrow>
                    (case get_path outp merged of
                       None \<Rightarrow> Inl (Runtime (stateName s))
                     | Some out \<Rightarrow> Inr out))))"

text \<open>
  \<^verbatim>\<open>LambdaInvoke\<close> sends the state's input as the payload and gets the invocation's response,
  an object that holds the function's answer under \<^verbatim>\<open>Payload\<close>.
\<close>

definition lambda_response :: "json \<Rightarrow> json" where
  "lambda_response payload =
     JObj [(''ExecutedVersion'', JStr ''$LATEST''), (''Payload'', payload),
           (''StatusCode'', JNum 200)]"

definition run_state :: "services \<Rightarrow> state \<Rightarrow> json \<Rightarrow> failure + json" where
  "run_state sv s input =
     (case stateBody s of
        Pass res \<Rightarrow> apply_paths s input res
      | LambdaInvoke fn \<Rightarrow>
          (case invoke sv (functionName fn) input of
             Inl err \<Rightarrow> Inl (TaskFailed (stateName s) err)
           | Inr payload \<Rightarrow> apply_paths s input (lambda_response payload))
      | Succeed \<Rightarrow> Inr input)"

definition timed_out :: "state_machine \<Rightarrow> nat \<Rightarrow> bool" where
  "timed_out m t = (case timeout m of None \<Rightarrow> False | Some d \<Rightarrow> toSeconds d < t)"

text \<open>
  One step runs the state the execution is in. The clock counts the seconds since the
  execution started; a state that would end after the timeout is cut off.
\<close>

definition step :: "services \<Rightarrow> state_machine \<Rightarrow> config \<Rightarrow> config" where
  "step sv m c =
     (case c of
        Done out \<Rightarrow> Done out
      | Running n doc t \<Rightarrow>
          (case find (\<lambda>s. stateName s = n) (states m) of
             None \<Rightarrow> Done (Failed (Runtime n))
           | Some s \<Rightarrow>
               (if timed_out m (t + took sv n doc) then Done (Failed Timeout)
                else
                  (case run_state sv s doc of
                     Inl f \<Rightarrow> Done (Failed f)
                   | Inr out \<Rightarrow>
                       (case nextState s of
                          None \<Rightarrow> Done (Succeeded out)
                        | Some n' \<Rightarrow> Running n' out (t + took sv n doc))))))"

definition start_execution :: "state_machine \<Rightarrow> json \<Rightarrow> config" where
  "start_execution m input = Running (startAt m) input 0"

fun exec :: "services \<Rightarrow> state_machine \<Rightarrow> nat \<Rightarrow> config \<Rightarrow> config" where
  "exec sv m 0 c = c"
| "exec sv m (Suc n) c = exec sv m n (step sv m c)"

text \<open>The states an execution enters, in order, each with the input it receives.\<close>

fun visited :: "services \<Rightarrow> state_machine \<Rightarrow> nat \<Rightarrow> config \<Rightarrow> (string \<times> json) list" where
  "visited sv m 0 c = []"
| "visited sv m (Suc n) c =
     (case c of
        Running s doc t \<Rightarrow> (s, doc) # visited sv m n (step sv m c)
      | Done out \<Rightarrow> [])"

subsection \<open>The queue, its dead-letter queue and the event source\<close>

text \<open>
  \<^verbatim>\<open>processOrderFn.addEventSource(new SqsEventSource(orderQueue, { batchSize: 10 }))\<close>: the
  function is invoked with batches of at most ten messages of the queue. The source sets no
  \<^verbatim>\<open>reportBatchItemFailures\<close>, so an invocation that fails fails its whole batch.
\<close>

record event_source_mapping =
  sourceQueue :: queue
  consumer :: lambda_function
  batchSize :: nat

definition SqsEventSource :: "queue \<Rightarrow> nat \<Rightarrow> lambda_function \<Rightarrow> event_source_mapping" where
  "SqsEventSource q n fn = \<lparr>sourceQueue = q, consumer = fn, batchSize = n\<rparr>"

definition addEventSource ::
  "lambda_function \<Rightarrow> (lambda_function \<Rightarrow> event_source_mapping) \<Rightarrow>
   event_source_mapping list \<Rightarrow> event_source_mapping list" where
  "addEventSource fn src mappings = mappings @ [src fn]"

definition eventSources :: "event_source_mapping list" where
  "eventSources = addEventSource processOrderFn (SqsEventSource orderQueue 10) []"

text \<open>
  A message carries the number of times it has been received. The queues of the account are
  a function from queue name to the messages the queue holds, oldest first.
\<close>

record message =
  messageId :: string
  body :: string
  receiveCount :: nat

type_synonym sqs = "string \<Rightarrow> message list"

text \<open>
  The redrive policy of a queue: a message that has been received \<^verbatim>\<open>maxReceiveCount\<close> times
  and is still in the queue is not received again; the next receive moves it to the
  dead-letter queue instead.
\<close>

definition redrive :: "queue \<Rightarrow> sqs \<Rightarrow> sqs" where
  "redrive q s =
     (case deadLetterQueue q of
        None \<Rightarrow> s
      | Some dl \<Rightarrow>
          s(dlqQueueName dl :=
              s (dlqQueueName dl) @
                filter (\<lambda>m. \<not> receiveCount m < maxReceiveCount dl) (s (queueName q)),
            queueName q := filter (\<lambda>m. receiveCount m < maxReceiveCount dl) (s (queueName q))))"

definition received :: "message \<Rightarrow> message" where
  "received m = m\<lparr>receiveCount := Suc (receiveCount m)\<rparr>"

text \<open>The event a batch is delivered as: its records, each with the message's id and body.\<close>

definition sqs_event :: "message list \<Rightarrow> json" where
  "sqs_event batch =
     JObj [(''Records'',
            JArr (map (\<lambda>m. JObj [(''messageId'', JStr (messageId m)), (''body'', JStr (body m))])
                    batch))]"

text \<open>A delivery invokes the consumer of the event source with the batch's event.\<close>

definition deliver :: "services \<Rightarrow> event_source_mapping \<Rightarrow> message list \<Rightarrow> string + json" where
  "deliver sv es batch = invoke sv (functionName (consumer es)) (sqs_event batch)"

text \<open>
  One poll of an event source: redrive, receive a batch from the front of the queue, deliver
  it. When the invocation succeeds the batch is deleted; when it fails the messages stay in
  the queue with their receive counts raised. The result is the queues afterwards and the
  batch that was delivered.
\<close>

definition poll :: "services \<Rightarrow> event_source_mapping \<Rightarrow> sqs \<Rightarrow> sqs \<times> message list" where
  "poll sv es s =
     (let q = queueName (sourceQueue es);
          s1 = redrive (sourceQueue es) s;
          batch = map received (take (batchSize es) (s1 q));
          rest = drop (batchSize es) (s1 q)
      in if batch = [] then (s1, [])
         else (case deliver sv es batch of
                 Inr _ \<Rightarrow> (s1(q := rest), batch)
               | Inl _ \<Rightarrow> (s1(q := batch @ rest), batch)))"

text \<open>Polling again and again: the queues at the end and the batches delivered, in order.\<close>

fun polls :: "services \<Rightarrow> event_source_mapping \<Rightarrow> nat \<Rightarrow> sqs \<Rightarrow> sqs \<times> message list list" where
  "polls sv es 0 s = (s, [])"
| "polls sv es (Suc n) s =
     (case poll sv es s of
        (s1, batch) \<Rightarrow> (case polls sv es n s1 of (s2, batches) \<Rightarrow> (s2, batch # batches)))"

subsection \<open>Grants and parameters\<close>

text \<open>The grants of the stack, in the order of the source: resource, permission, grantee.\<close>

datatype permission = ReadWriteData | ReadData | SendMessages | Publish | Write | Read

definition grants :: "(string \<times> permission \<times> string) list" where
  "grants =
     [(''OrdersTable'', ReadWriteData, functionName createOrderFn),
      (''OrdersTable'', ReadData, functionName getOrderFn),
      (''OrdersTable'', ReadWriteData, functionName processOrderFn),
      (''OrderQueue'', SendMessages, functionName createOrderFn),
      (''OrderNotifications'', Publish, functionName processOrderFn),
      (''ReceiptsBucket'', Write, functionName processOrderFn),
      (''ReceiptsBucket'', Write, functionName generateReceiptFn),
      (''AppConfigParam'', Read, functionName processOrderFn),
      (''NotificationApiKey'', Read, functionName processOrderFn)]"

text \<open>The parameters the stack puts into the parameter store, and a lookup by name.\<close>

definition ssm_parameters :: "string_parameter list" where
  "ssm_parameters = [appConfigParam]"

definition get_parameter :: "string_parameter list \<Rightarrow> string \<Rightarrow> string option" where
  "get_parameter ps nm = map_of (map (\<lambda>p. (parameterName p, stringValue p)) ps) nm"

text \<open>The number a string of decimal digits denotes, read left to right.\<close>

definition digit_value :: "char \<Rightarrow> nat option" where
  "digit_value c =
     (let n = (of_char c :: nat)
      in if of_char CHR ''0'' \<le> n \<and> n \<le> of_char CHR ''9'' then Some (n - of_char CHR ''0'')
         else None)"

fun decimal_from :: "nat \<Rightarrow> string \<Rightarrow> nat option" where
  "decimal_from acc [] = Some acc"
| "decimal_from acc (c # cs) =
     (case digit_value c of None \<Rightarrow> None | Some d \<Rightarrow> decimal_from (10 * acc + d) cs)"

definition decimal :: "string \<Rightarrow> nat option" where
  "decimal s = (if s = [] then None else decimal_from 0 s)"

subsection \<open>The order store\<close>

text \<open>
  Modelled from the spec: the handlers that write and read the table
  (lambda/create-order/index.js, lambda/get-order/index.js) are not among the sources. The
  spec's contract is: \<^verbatim>\<open>put(order)\<close> creates or fully replaces an order record (idempotent
  on orderId); \<^verbatim>\<open>get(orderId)\<close> returns the record or a "not found" signal. The key schema
  is the source's: the table's partition key is the string attribute \<^verbatim>\<open>orderId\<close>.
\<close>

type_synonym item = "(string \<times> json) list"

type_synonym store = "string \<rightharpoonup> item"

datatype store_error = ValidationException

definition key_of :: "table \<Rightarrow> item \<Rightarrow> string option" where
  "key_of tbl it =
     (case (map_of it (fst (partitionKey tbl)), snd (partitionKey tbl)) of
        (Some (JStr k), STRING) \<Rightarrow> Some k
      | _ \<Rightarrow> None)"

definition put :: "table \<Rightarrow> store \<Rightarrow> item \<Rightarrow> store_error + store" where
  "put tbl st it =
     (case key_of tbl it of
        None \<Rightarrow> Inl ValidationException
      | Some k \<Rightarrow> Inr (st(k \<mapsto> it)))"

definition get :: "table \<Rightarrow> store \<Rightarrow> string \<Rightarrow> item option" where
  "get tbl st k = st k"

subsection \<open>Reading an execution's history\<close>

text \<open>
  A history is handed on along a list of states when its entries are those states, one after
  the other from the first, and every entry but the last produced the input of the entry
  after it.
\<close>

fun handed_on :: "services \<Rightarrow> state list \<Rightarrow> (string \<times> json) list \<Rightarrow> bool" where
  "handed_on sv ss [] = True"
| "handed_on sv [] (e # es) = False"
| "handed_on sv (s # ss) [e] = (fst e = stateName s)"
| "handed_on sv (s # ss) (e # e' # es) =
     (fst e = stateName s \<and> run_state sv s (snd e) = Inr (snd e') \<and> handed_on sv ss (e' # es))"

subsection \<open>Example inputs\<close>

text \<open>
  The workflow output the README shows for its example run: the answer of the function that
  \<^verbatim>\<open>NotifyCustomer\<close> invokes.
\<close>

definition readme_output :: json where
  "readme_output =
     JObj [(''processed'', JNum 1),
           (''results'',
            JArr [JObj [(''orderId'', JStr ''dbdbbfe3-a4d8-408d-ad55-78b1de2e3873''),
                        (''status'', JStr ''PROCESSED'')]])]"

text \<open>
  Services where the receipt function answers with the document it was given, the
  order-processing function answers with the README's output, and every state takes a second.
\<close>

definition example_services :: services where
  "example_services =
     \<lparr>invoke = (\<lambda>fn payload.
        if fn = ''GenerateReceiptFunction'' then Inr payload
        else if fn = ''ProcessOrderFunction'' then Inr readme_output
        else Inl ''ResourceNotFoundException''),
      took = (\<lambda>s doc. 1)\<rparr>"

definition sample_order :: json where
  "sample_order =
     JObj [(''orderId'', JStr ''dbdbbfe3-a4d8-408d-ad55-78b1de2e3873''),
           (''customerName'', JStr ''Alice''),
           (''items'', JArr [JStr ''widget'', JStr ''gadget'']),
           (''total'', JNum 50)]"

text \<open>An order with an empty customer name, no items and a negative total.\<close>

definition invalid_order :: json where
  "invalid_order =
     JObj [(''orderId'', JStr ''o-1''), (''customerName'', JStr []), (''items'', JArr []),
           (''total'', JNum (- 1))]"

text \<open>Services where every state takes 301 seconds, and where every invocation fails.\<close>

definition stalled_services :: services where
  "stalled_services = \<lparr>invoke = (\<lambda>fn payload. Inr payload), took = (\<lambda>s doc. 301)\<rparr>"

definition failing_services :: services where
  "failing_services = \<lparr>invoke = (\<lambda>fn payload. Inl ''Error''), took = (\<lambda>s doc. 1)\<rparr>"

definition sample_message :: message where
  "sample_message = \<lparr>messageId = ''m-1'', body = ''{}'', receiveCount = 0\<rparr>"

definition second_message :: message where
  "second_message = \<lparr>messageId = ''m-2'', body = ''{}'', receiveCount = 0\<rparr>"

definition sample_queues :: sqs where
  "sample_queues = (\<lambda>q. [])(''order-queue'' := [sample_message, second_message])"

section \<open>The workflow, state by state\<close>

lemmas workflow_defs =
  OrderWorkflow_def workflow_definition_def start_chain_def
  validateOrder_def processPayment_def generateReceipt_def notifyCustomer_def orderComplete_def
  sfn_Pass_def tasks_LambdaInvoke_def sfn_Succeed_def generateReceiptFn_def processOrderFn_def

lemma timed_out_OrderWorkflow: "timed_out OrderWorkflow t = (300 < t)"
  by (simp add: timed_out_def OrderWorkflow_def workflow_definition_def start_chain_def
      toSeconds_def Duration_minutes_def)

lemma states_OrderWorkflow:
  "states OrderWorkflow =
     [validateOrder\<lparr>nextState := Some ''ProcessPayment''\<rparr>,
      processPayment\<lparr>nextState := Some ''GenerateReceipt''\<rparr>,
      generateReceipt\<lparr>nextState := Some ''NotifyCustomer''\<rparr>,
      notifyCustomer\<lparr>nextState := Some ''OrderComplete''\<rparr>,
      orderComplete]"
  by (simp add: workflow_defs)

lemma names_OrderWorkflow:
  "map stateName (states OrderWorkflow) =
     [''ValidateOrder'', ''ProcessPayment'', ''GenerateReceipt'', ''NotifyCustomer'',
      ''OrderComplete'']"
  by (simp add: workflow_defs)

lemma stateName_simps:
  "stateName validateOrder = ''ValidateOrder''"
  "stateName processPayment = ''ProcessPayment''"
  "stateName generateReceipt = ''GenerateReceipt''"
  "stateName notifyCustomer = ''NotifyCustomer''"
  "stateName orderComplete = ''OrderComplete''"
  by (simp_all add: workflow_defs)

lemma start_OrderWorkflow: "start_execution OrderWorkflow doc = Running ''ValidateOrder'' doc 0"
  by (simp add: start_execution_def workflow_defs)

text \<open>What each state computes; the link to the next state plays no part in it.\<close>

lemma run_validateOrder:
  "run_state sv (validateOrder\<lparr>nextState := nx\<rparr>) doc =
     (case put_path [''validation''] (JObj [(''validated'', JBool True)]) doc of
        None \<Rightarrow> Inl (ResultPathMatchFailure ''ValidateOrder'')
      | Some d \<Rightarrow> Inr d)"
  by (simp add: run_state_def apply_paths_def reference_path_def validateOrder_def sfn_Pass_def
      split: option.splits)

lemma run_processPayment:
  "run_state sv (processPayment\<lparr>nextState := nx\<rparr>) doc =
     (case put_path [''payment''] (JObj [(''paymentStatus'', JStr ''SUCCESS'')]) doc of
        None \<Rightarrow> Inl (ResultPathMatchFailure ''ProcessPayment'')
      | Some d \<Rightarrow> Inr d)"
  by (simp add: run_state_def apply_paths_def reference_path_def processPayment_def sfn_Pass_def
      split: option.splits)

lemma run_generateReceipt:
  "run_state sv (generateReceipt\<lparr>nextState := nx\<rparr>) doc =
     (case invoke sv ''GenerateReceiptFunction'' doc of
        Inl err \<Rightarrow> Inl (TaskFailed ''GenerateReceipt'' err)
      | Inr payload \<Rightarrow> Inr payload)"
  by (simp add: run_state_def apply_paths_def reference_path_def generateReceipt_def
      tasks_LambdaInvoke_def generateReceiptFn_def lambda_response_def split: sum.splits)

lemma run_notifyCustomer:
  "run_state sv (notifyCustomer\<lparr>nextState := nx\<rparr>) doc =
     (case invoke sv ''ProcessOrderFunction'' doc of
        Inl err \<Rightarrow> Inl (TaskFailed ''NotifyCustomer'' err)
      | Inr payload \<Rightarrow> Inr payload)"
  by (simp add: run_state_def apply_paths_def reference_path_def notifyCustomer_def
      tasks_LambdaInvoke_def processOrderFn_def lambda_response_def split: sum.splits)

lemma run_orderComplete: "run_state sv orderComplete doc = Inr doc"
  by (simp add: run_state_def orderComplete_def sfn_Succeed_def)

lemma find_states:
  "find (\<lambda>s. stateName s = ''ValidateOrder'') (states OrderWorkflow) =
     Some (validateOrder\<lparr>nextState := Some ''ProcessPayment''\<rparr>)"
  "find (\<lambda>s. stateName s = ''ProcessPayment'') (states OrderWorkflow) =
     Some (processPayment\<lparr>nextState := Some ''GenerateReceipt''\<rparr>)"
  "find (\<lambda>s. stateName s = ''GenerateReceipt'') (states OrderWorkflow) =
     Some (generateReceipt\<lparr>nextState := Some ''NotifyCustomer''\<rparr>)"
  "find (\<lambda>s. stateName s = ''NotifyCustomer'') (states OrderWorkflow) =
     Some (notifyCustomer\<lparr>nextState := Some ''OrderComplete''\<rparr>)"
  "find (\<lambda>s. stateName s = ''OrderComplete'') (states OrderWorkflow) = Some orderComplete"
  by (simp_all add: workflow_defs)

text \<open>One step of the workflow from each of its states.\<close>

lemma step_ValidateOrder:
  "step sv OrderWorkflow (Running ''ValidateOrder'' doc t) =
     (if 300 < t + took sv ''ValidateOrder'' doc then Done (Failed Timeout)
      else (case put_path [''validation''] (JObj [(''validated'', JBool True)]) doc of
              None \<Rightarrow> Done (Failed (ResultPathMatchFailure ''ValidateOrder''))
            | Some d \<Rightarrow> Running ''ProcessPayment'' d (t + took sv ''ValidateOrder'' doc)))"
  by (simp add: step_def find_states timed_out_OrderWorkflow run_validateOrder
      split: option.splits)

lemma step_ProcessPayment:
  "step sv OrderWorkflow (Running ''ProcessPayment'' doc t) =
     (if 300 < t + took sv ''ProcessPayment'' doc then Done (Failed Timeout)
      else (case put_path [''payment''] (JObj [(''paymentStatus'', JStr ''SUCCESS'')]) doc of
              None \<Rightarrow> Done (Failed (ResultPathMatchFailure ''ProcessPayment''))
            | Some d \<Rightarrow> Running ''GenerateReceipt'' d (t + took sv ''ProcessPayment'' doc)))"
  by (simp add: step_def find_states timed_out_OrderWorkflow run_processPayment
      split: option.splits)

lemma step_GenerateReceipt:
  "step sv OrderWorkflow (Running ''GenerateReceipt'' doc t) =
     (if 300 < t + took sv ''GenerateReceipt'' doc then Done (Failed Timeout)
      else (case invoke sv ''GenerateReceiptFunction'' doc of
              Inl err \<Rightarrow> Done (Failed (TaskFailed ''GenerateReceipt'' err))
            | Inr payload \<Rightarrow>
                Running ''NotifyCustomer'' payload (t + took sv ''GenerateReceipt'' doc)))"
  by (simp add: step_def find_states timed_out_OrderWorkflow run_generateReceipt
      split: sum.splits)

lemma step_NotifyCustomer:
  "step sv OrderWorkflow (Running ''NotifyCustomer'' doc t) =
     (if 300 < t + took sv ''NotifyCustomer'' doc then Done (Failed Timeout)
      else (case invoke sv ''ProcessOrderFunction'' doc of
              Inl err \<Rightarrow> Done (Failed (TaskFailed ''NotifyCustomer'' err))
            | Inr payload \<Rightarrow>
                Running ''OrderComplete'' payload (t + took sv ''NotifyCustomer'' doc)))"
  by (simp add: step_def find_states timed_out_OrderWorkflow run_notifyCustomer
      split: sum.splits)

lemma step_OrderComplete:
  "step sv OrderWorkflow (Running ''OrderComplete'' doc t) =
     (if 300 < t + took sv ''OrderComplete'' doc then Done (Failed Timeout)
      else Done (Succeeded doc))"
  by (simp add: step_def find_states timed_out_OrderWorkflow run_orderComplete)
     (simp add: orderComplete_def sfn_Succeed_def)

lemma step_Done: "step sv m (Done out) = Done out"
  by (simp add: step_def)

lemma exec_Done: "exec sv m n (Done out) = Done out"
  by (induction n) (simp_all add: step_Done)

lemma visited_Done: "visited sv m n (Done out) = []"
  by (cases n) simp_all

lemma exec_add: "exec sv m (j + k) c = exec sv m k (exec sv m j c)"
  by (induction j arbitrary: c) simp_all

lemma visited_more_fuel: "prefix (visited sv m n c) (visited sv m (n + k) c)"
  by (induction n arbitrary: c) (simp_all split: config.splits)

lemmas step_simps =
  step_ValidateOrder step_ProcessPayment step_GenerateReceipt step_NotifyCustomer
  step_OrderComplete step_Done exec_Done visited_Done

lemma five_plus: "5 + k = Suc (Suc (Suc (Suc (Suc k))))"
  by simp

text \<open>Five steps end every execution, whatever the services do.\<close>

lemma run_terminates:
  "\<exists>out. exec sv OrderWorkflow (5 + k) (start_execution OrderWorkflow doc) = Done out"
  unfolding five_plus start_OrderWorkflow
  by (simp add: step_simps split: option.splits sum.splits)

lemma visited_prefix_declared:
  "prefix (map fst (visited sv OrderWorkflow (5 + k) (start_execution OrderWorkflow doc)))
     (map stateName (states OrderWorkflow))"
  unfolding five_plus start_OrderWorkflow names_OrderWorkflow
  by (simp add: step_simps split: option.splits sum.splits)

lemma visited_handed_on:
  "handed_on sv (states OrderWorkflow)
     (visited sv OrderWorkflow (5 + k) (start_execution OrderWorkflow doc))"
  unfolding five_plus start_OrderWorkflow states_OrderWorkflow
  by (simp add: step_simps run_validateOrder run_processPayment run_generateReceipt
      run_notifyCustomer run_orderComplete stateName_simps
      split: option.splits sum.splits)

lemma succeeded_all_steps:
  "exec sv OrderWorkflow (5 + k) (start_execution OrderWorkflow doc) = Done (Succeeded out) \<Longrightarrow>
   map fst (visited sv OrderWorkflow (5 + k) (start_execution OrderWorkflow doc)) =
     map stateName (states OrderWorkflow)"
  unfolding five_plus start_OrderWorkflow names_OrderWorkflow
  by (auto simp add: step_simps split: option.splits sum.splits if_splits)

text \<open>
  A running execution is in the state the declared order gives for the number of steps taken,
  and its clock is within the timeout.
\<close>

lemma running_state_declared:
  assumes "exec sv OrderWorkflow k (start_execution OrderWorkflow doc) = Running n d t"
  shows "k < 5 \<and> n = map stateName (states OrderWorkflow) ! k \<and> t \<le> 300"
proof -
  have small: "k < 5"
  proof (rule ccontr)
    assume "\<not> k < 5"
    then obtain j where "k = 5 + j"
      using le_Suc_ex [of 5 k] by auto
    with run_terminates [of sv j doc] assms show False
      by simp
  qed
  then consider "k = 0" | "k = 1" | "k = 2" | "k = 3" | "k = 4"
    by linarith
  then show ?thesis
  proof cases
    case 1
    with assms show ?thesis
      by (simp add: start_OrderWorkflow names_OrderWorkflow)
  next
    case 2
    with assms show ?thesis
      by (auto simp add: start_OrderWorkflow names_OrderWorkflow step_simps
          split: option.splits sum.splits if_splits)
  next
    case 3
    with assms show ?thesis
      by (auto simp add: start_OrderWorkflow names_OrderWorkflow step_simps numeral_2_eq_2
          split: option.splits sum.splits if_splits)
  next
    case 4
    with assms show ?thesis
      by (auto simp add: start_OrderWorkflow names_OrderWorkflow step_simps numeral_3_eq_3
          split: option.splits sum.splits if_splits)
  next
    case 5
    have "(4::nat) = Suc (Suc (Suc (Suc 0)))"
      by simp
    with 5 assms show ?thesis
      by (auto simp add: start_OrderWorkflow names_OrderWorkflow step_simps
          split: option.splits sum.splits if_splits)
  qed
qed

lemma exec_Suc_end: "exec sv m (Suc k) c = step sv m (exec sv m k c)"
  using exec_add [of sv m k 1 c] by simp

lemma step_times_out:
  assumes "n \<in> set (map stateName (states OrderWorkflow))" and "300 < t + took sv n doc"
  shows "step sv OrderWorkflow (Running n doc t) = Done (Failed Timeout)"
  using assms unfolding names_OrderWorkflow
  by (auto simp add: step_simps)
section \<open>The claims about the workflow\<close>

text \<open>
  C1. The steps of every OrderWorkflow execution run strictly in the declared order
  ValidateOrder, ProcessPayment, GenerateReceipt, NotifyCustomer, OrderComplete. The chain of
  the source declares the five states in this order and starts at ValidateOrder. With fuel for
  five steps or more every execution has ended. The states an execution enters are a prefix
  of the declared order, whatever the fuel, so no step is skipped or reordered; an execution
  that succeeds has entered all five; after \<open>j\<close> steps a running execution is in the state
  number \<open>j\<close> of the order. The history is handed on: the input of each state entered is
  the output of the state before it, so the output of a step reaches later steps only.
\<close>

theorem steps_run_in_declared_order:
  "map stateName (states OrderWorkflow) =
     [''ValidateOrder'', ''ProcessPayment'', ''GenerateReceipt'', ''NotifyCustomer'',
      ''OrderComplete'']
   \<and> startAt OrderWorkflow = ''ValidateOrder''
   \<and> (\<exists>out. exec sv OrderWorkflow (5 + k) (start_execution OrderWorkflow doc) = Done out)
   \<and> prefix (map fst (visited sv OrderWorkflow n (start_execution OrderWorkflow doc)))
        (map stateName (states OrderWorkflow))
   \<and> handed_on sv (states OrderWorkflow)
        (visited sv OrderWorkflow (5 + k) (start_execution OrderWorkflow doc))
   \<and> ((\<exists>out. exec sv OrderWorkflow (5 + k) (start_execution OrderWorkflow doc) =
              Done (Succeeded out)) \<longrightarrow>
        map fst (visited sv OrderWorkflow (5 + k) (start_execution OrderWorkflow doc)) =
          map stateName (states OrderWorkflow))
   \<and> (exec sv OrderWorkflow j (start_execution OrderWorkflow doc) = Running s d t \<longrightarrow>
        j < 5 \<and> s = map stateName (states OrderWorkflow) ! j)"
proof -
  let ?c = "start_execution OrderWorkflow doc"
  have pre: "prefix (map fst (visited sv OrderWorkflow n ?c)) (map stateName (states OrderWorkflow))"
  proof (cases "n \<le> 5")
    case True
    then have "prefix (visited sv OrderWorkflow n ?c) (visited sv OrderWorkflow (5 + 0) ?c)"
      using visited_more_fuel [of sv OrderWorkflow n ?c "5 - n"] by simp
    then have "prefix (map fst (visited sv OrderWorkflow n ?c))
        (map fst (visited sv OrderWorkflow (5 + 0) ?c))"
      by (rule map_mono_prefix)
    with visited_prefix_declared [of sv 0 doc] show ?thesis
      using prefix_order.trans by blast
  next
    case False
    then obtain i where "n = 5 + i"
      using le_Suc_ex [of 5 n] by auto
    with visited_prefix_declared [of sv i doc] show ?thesis
      by simp
  qed
  have start: "startAt OrderWorkflow = ''ValidateOrder''"
    by (simp add: workflow_defs)
  show ?thesis
    using names_OrderWorkflow start run_terminates [of sv k doc] pre
      visited_handed_on [of sv k doc] succeeded_all_steps [of sv k doc]
      running_state_declared [of sv j doc s d t]
    by blast
qed

theorem steps_run_in_declared_order_witness:
  "exec example_services OrderWorkflow 5 (start_execution OrderWorkflow sample_order) =
     Done (Succeeded readme_output)
   \<and> map fst (visited example_services OrderWorkflow 5 (start_execution OrderWorkflow sample_order)) =
       [''ValidateOrder'', ''ProcessPayment'', ''GenerateReceipt'', ''NotifyCustomer'',
        ''OrderComplete'']
   \<and> (\<exists>d. exec example_services OrderWorkflow 2 (start_execution OrderWorkflow sample_order) =
         Running ''GenerateReceipt'' d 2)
   \<and> (2::nat) < 5"
proof -
  have five: "(5::nat) = Suc (Suc (Suc (Suc (Suc 0))))" and two: "(2::nat) = Suc (Suc 0)"
    by simp_all
  have fin: "exec example_services OrderWorkflow (5 + 0) (start_execution OrderWorkflow sample_order) =
      Done (Succeeded readme_output)"
    unfolding five_plus start_OrderWorkflow
    by (simp add: step_simps example_services_def sample_order_def)
  then have whole: "map fst (visited example_services OrderWorkflow (5 + 0)
      (start_execution OrderWorkflow sample_order)) = map stateName (states OrderWorkflow)"
    using steps_run_in_declared_order [of example_services 0 sample_order 0 0 "[]" JNull 0]
    by blast
  have running: "\<exists>d. exec example_services OrderWorkflow 2 (start_execution OrderWorkflow sample_order) =
      Running ''GenerateReceipt'' d 2"
    unfolding two start_OrderWorkflow
    by (simp add: step_simps example_services_def sample_order_def)
  from fin whole running show ?thesis
    by (simp add: names_OrderWorkflow)
qed

text \<open>
  C2, as the code has it. The two Pass states merge their result into the document under a
  key of their own: ValidateOrder writes \<^verbatim>\<open>validation\<close> and ProcessPayment writes \<^verbatim>\<open>payment\<close>,
  and every other field of the document reads as before, so ProcessPayment keeps what
  ValidateOrder wrote. GenerateReceipt and NotifyCustomer do not merge: their output is the
  answer of the function they invoke and nothing else, so the fields of earlier steps remain
  only if that function returns them.
\<close>

theorem pass_steps_merge_task_steps_replace:
  "run_state sv validateOrder (JObj kvs) =
     Inr (JObj (AList.update ''validation'' (JObj [(''validated'', JBool True)]) kvs))
   \<and> run_state sv processPayment (JObj kvs) =
     Inr (JObj (AList.update ''payment'' (JObj [(''paymentStatus'', JStr ''SUCCESS'')]) kvs))
   \<and> get_path [key] (JObj (AList.update ''validation'' v kvs)) =
       (if key = ''validation'' then Some v else get_path [key] (JObj kvs))
   \<and> get_path [key] (JObj (AList.update ''payment'' v kvs)) =
       (if key = ''payment'' then Some v else get_path [key] (JObj kvs))
   \<and> run_state sv generateReceipt doc =
       (case invoke sv (functionName generateReceiptFn) doc of
          Inl err \<Rightarrow> Inl (TaskFailed ''GenerateReceipt'' err)
        | Inr payload \<Rightarrow> Inr payload)
   \<and> run_state sv notifyCustomer doc =
       (case invoke sv (functionName processOrderFn) doc of
          Inl err \<Rightarrow> Inl (TaskFailed ''NotifyCustomer'' err)
        | Inr payload \<Rightarrow> Inr payload)"
proof -
  have "run_state sv (validateOrder\<lparr>nextState := None\<rparr>) (JObj kvs) =
      Inr (JObj (AList.update ''validation'' (JObj [(''validated'', JBool True)]) kvs))"
    by (simp add: run_validateOrder)
  moreover have "run_state sv (processPayment\<lparr>nextState := None\<rparr>) (JObj kvs) =
      Inr (JObj (AList.update ''payment'' (JObj [(''paymentStatus'', JStr ''SUCCESS'')]) kvs))"
    by (simp add: run_processPayment)
  moreover have "run_state sv (generateReceipt\<lparr>nextState := None\<rparr>) doc =
      (case invoke sv (functionName generateReceiptFn) doc of
         Inl err \<Rightarrow> Inl (TaskFailed ''GenerateReceipt'' err)
       | Inr payload \<Rightarrow> Inr payload)"
    by (simp add: run_generateReceipt generateReceiptFn_def)
  moreover have "run_state sv (notifyCustomer\<lparr>nextState := None\<rparr>) doc =
      (case invoke sv (functionName processOrderFn) doc of
         Inl err \<Rightarrow> Inl (TaskFailed ''NotifyCustomer'' err)
       | Inr payload \<Rightarrow> Inr payload)"
    by (simp add: run_notifyCustomer processOrderFn_def)
  moreover have "validateOrder\<lparr>nextState := None\<rparr> = validateOrder"
    "processPayment\<lparr>nextState := None\<rparr> = processPayment"
    "generateReceipt\<lparr>nextState := None\<rparr> = generateReceipt"
    "notifyCustomer\<lparr>nextState := None\<rparr> = notifyCustomer"
    by (simp_all add: workflow_defs)
  moreover have "get_path [key] (JObj (AList.update f v kvs)) =
      (if key = f then Some v else get_path [key] (JObj kvs))" for f
    by (simp add: update_conv' split: option.splits)
  ultimately show ?thesis
    by simp
qed

text \<open>
  C2 as stated fails: in the README's run the document that reaches NotifyCustomer holds
  the keys \<^verbatim>\<open>validation\<close> and \<^verbatim>\<open>payment\<close>, and the output of NotifyCustomer, the README's
  workflow output, holds neither.
\<close>

theorem notify_step_drops_earlier_keys:
  "(\<exists>d. exec example_services OrderWorkflow 3 (start_execution OrderWorkflow sample_order) =
          Running ''NotifyCustomer'' d 3
        \<and> get_path [''validation''] d = Some (JObj [(''validated'', JBool True)])
        \<and> get_path [''payment''] d = Some (JObj [(''paymentStatus'', JStr ''SUCCESS'')]))
   \<and> exec example_services OrderWorkflow 4 (start_execution OrderWorkflow sample_order) =
       Running ''OrderComplete'' readme_output 4
   \<and> exec example_services OrderWorkflow 5 (start_execution OrderWorkflow sample_order) =
       Done (Succeeded readme_output)
   \<and> get_path [''validation''] readme_output = None
   \<and> get_path [''payment''] readme_output = None"
proof -
  have n: "(3::nat) = Suc (Suc (Suc 0))" "(4::nat) = Suc (Suc (Suc (Suc 0)))"
    "(5::nat) = Suc (Suc (Suc (Suc (Suc 0))))"
    by simp_all
  show ?thesis
    unfolding n start_OrderWorkflow
    by (simp add: step_simps example_services_def sample_order_def readme_output_def)
qed

text \<open>
  C3. The workflow declares no Fail state; an execution fails without one, and the failed
  outcome is terminal: a step leaves it as it is. It is reachable from every state an
  execution can be in (Submitted is the execution about to run ValidateOrder, Validated about
  to run ProcessPayment, and so on to Notified, about to run OrderComplete): from each of the
  five states, whatever the document and the clock, there are services under which the next
  step ends the execution failed, by the timeout. A running execution is in no other state.
\<close>

theorem failed_reachable_from_every_state:
  "(n \<in> set (map stateName (states OrderWorkflow)) \<longrightarrow>
      (\<exists>sv. step sv OrderWorkflow (Running n doc t) = Done (Failed Timeout)))
   \<and> step sv' OrderWorkflow (Done (Failed f)) = Done (Failed f)
   \<and> (exec sv' OrderWorkflow k (start_execution OrderWorkflow doc') = Running n' d' t' \<longrightarrow>
        n' \<in> set (map stateName (states OrderWorkflow)))"
proof -
  have "step stalled_services OrderWorkflow (Running n doc t) = Done (Failed Timeout)"
    if "n \<in> set (map stateName (states OrderWorkflow))"
    using that by (intro step_times_out) (simp_all add: stalled_services_def)
  moreover have "n' \<in> set (map stateName (states OrderWorkflow))"
    if "exec sv' OrderWorkflow k (start_execution OrderWorkflow doc') = Running n' d' t'"
  proof -
    from running_state_declared [OF that]
    have "k < length (map stateName (states OrderWorkflow))"
      and "n' = map stateName (states OrderWorkflow) ! k"
      by (simp_all add: names_OrderWorkflow)
    then show ?thesis
      using nth_mem by blast
  qed
  ultimately show ?thesis
    by (auto simp add: step_Done)
qed

theorem failed_reachable_from_every_state_witness:
  "''ProcessPayment'' \<in> set (map stateName (states OrderWorkflow))
   \<and> (\<exists>sv. step sv OrderWorkflow (Running ''ProcessPayment'' sample_order 0) =
         Done (Failed Timeout))
   \<and> (\<exists>d. exec example_services OrderWorkflow 1 (start_execution OrderWorkflow sample_order) =
         Running ''ProcessPayment'' d 1)"
proof -
  have member: "''ProcessPayment'' \<in> set (map stateName (states OrderWorkflow))"
    by (simp add: names_OrderWorkflow)
  have running: "\<exists>d. exec example_services OrderWorkflow 1
      (start_execution OrderWorkflow sample_order) = Running ''ProcessPayment'' d 1"
    by (simp add: start_OrderWorkflow step_simps example_services_def sample_order_def)
  from member running show ?thesis
    using failed_reachable_from_every_state
      [of "''ProcessPayment''" sample_order 0 example_services Timeout 1 sample_order
        "''ProcessPayment''"]
    by blast
qed

text \<open>
  C4, as the code has it. ValidateOrder is a Pass state: it accepts every order, records
  \<^verbatim>\<open>validated: true\<close> under \<^verbatim>\<open>validation\<close> and hands over to ProcessPayment. The only way the
  Validate step of an order fails is the execution's timeout. When it does, no payment,
  receipt or notification step executes and the execution ends failed, with the reason
  timeout.
\<close>

theorem validate_fails_only_by_timeout:
  "(step sv OrderWorkflow (start_execution OrderWorkflow (JObj kvs)) = Done (Failed f) \<longrightarrow>
      f = Timeout
      \<and> 300 < took sv ''ValidateOrder'' (JObj kvs)
      \<and> map fst (visited sv OrderWorkflow (5 + k) (start_execution OrderWorkflow (JObj kvs))) =
          [''ValidateOrder'']
      \<and> exec sv OrderWorkflow (5 + k) (start_execution OrderWorkflow (JObj kvs)) =
          Done (Failed Timeout))
   \<and> (\<not> 300 < took sv ''ValidateOrder'' (JObj kvs) \<longrightarrow>
        step sv OrderWorkflow (start_execution OrderWorkflow (JObj kvs)) =
          Running ''ProcessPayment''
            (JObj (AList.update ''validation'' (JObj [(''validated'', JBool True)]) kvs))
            (took sv ''ValidateOrder'' (JObj kvs)))"
  unfolding five_plus start_OrderWorkflow
  by (simp add: step_simps)

theorem validate_fails_only_by_timeout_witness:
  "step stalled_services OrderWorkflow (start_execution OrderWorkflow invalid_order) =
     Done (Failed Timeout)
   \<and> map fst (visited stalled_services OrderWorkflow 5 (start_execution OrderWorkflow invalid_order)) =
       [''ValidateOrder'']
   \<and> exec stalled_services OrderWorkflow 5 (start_execution OrderWorkflow invalid_order) =
       Done (Failed Timeout)
   \<and> \<not> 300 < took example_services ''ValidateOrder'' invalid_order
   \<and> (\<exists>d. step example_services OrderWorkflow (start_execution OrderWorkflow invalid_order) =
         Running ''ProcessPayment'' d 1)"
proof -
  have stalled: "step stalled_services OrderWorkflow (start_execution OrderWorkflow invalid_order) =
      Done (Failed Timeout)"
    by (simp add: start_OrderWorkflow step_simps stalled_services_def)
  have quick: "\<not> 300 < took example_services ''ValidateOrder'' invalid_order"
    and one: "took example_services ''ValidateOrder'' invalid_order = 1"
    by (simp_all add: example_services_def)
  show ?thesis
    using stalled quick one
      validate_fails_only_by_timeout [of stalled_services _ Timeout 0]
      validate_fails_only_by_timeout [of example_services _ Timeout 0]
    by (auto simp add: invalid_order_def)
qed

text \<open>
  C4 as stated fails: no order fails validation. The order with no items and a negative
  total is marked \<^verbatim>\<open>validated: true\<close>, payment, receipt and notification all execute, and
  the execution succeeds.
\<close>

theorem invalid_order_is_processed:
  "step example_services OrderWorkflow (start_execution OrderWorkflow invalid_order) =
     Running ''ProcessPayment''
       (JObj [(''orderId'', JStr ''o-1''), (''customerName'', JStr []), (''items'', JArr []),
              (''total'', JNum (- 1)), (''validation'', JObj [(''validated'', JBool True)])])
       1
   \<and> map fst (visited example_services OrderWorkflow 5 (start_execution OrderWorkflow invalid_order)) =
       [''ValidateOrder'', ''ProcessPayment'', ''GenerateReceipt'', ''NotifyCustomer'',
        ''OrderComplete'']
   \<and> exec example_services OrderWorkflow 5 (start_execution OrderWorkflow invalid_order) =
       Done (Succeeded readme_output)"
proof -
  have five: "(5::nat) = Suc (Suc (Suc (Suc (Suc 0))))"
    by simp
  show ?thesis
    unfolding five start_OrderWorkflow
    by (simp add: step_simps example_services_def invalid_order_def)
qed

text \<open>
  C5. The state machine is declared with a timeout of five minutes, 300 seconds. The clock
  of a running execution never shows more than that; and when the state in flight, whichever
  it is, would end after the bound, the next step ends the execution failed with the reason
  timeout, and it stays so.
\<close>

theorem execution_bounded_by_five_minutes:
  "timeout OrderWorkflow = Some (Duration_minutes 5)
   \<and> toSeconds (Duration_minutes 5) = 300
   \<and> (exec sv OrderWorkflow k (start_execution OrderWorkflow doc) = Running n d t \<longrightarrow>
        t \<le> 300
        \<and> (300 < t + took sv n d \<longrightarrow>
             exec sv OrderWorkflow (Suc k + j) (start_execution OrderWorkflow doc) =
               Done (Failed Timeout)))"
proof -
  have declared: "timeout OrderWorkflow = Some (Duration_minutes 5)"
    by (simp add: workflow_defs)
  have seconds: "toSeconds (Duration_minutes 5) = 300"
    by (simp add: toSeconds_def Duration_minutes_def)
  have "t \<le> 300 \<and> (300 < t + took sv n d \<longrightarrow>
      exec sv OrderWorkflow (Suc k + j) (start_execution OrderWorkflow doc) = Done (Failed Timeout))"
    if running: "exec sv OrderWorkflow k (start_execution OrderWorkflow doc) = Running n d t"
  proof -
    from running_state_declared [OF running]
    have k: "k < length (map stateName (states OrderWorkflow))"
      and n: "n = map stateName (states OrderWorkflow) ! k" and t: "t \<le> 300"
      by (simp_all add: names_OrderWorkflow)
    from k n have member: "n \<in> set (map stateName (states OrderWorkflow))"
      using nth_mem by blast
    have "exec sv OrderWorkflow (Suc k + j) (start_execution OrderWorkflow doc) =
        Done (Failed Timeout)" if late: "300 < t + took sv n d"
    proof -
      have "exec sv OrderWorkflow (Suc k + j) (start_execution OrderWorkflow doc) =
          exec sv OrderWorkflow j (step sv OrderWorkflow (Running n d t))"
        using exec_add [of sv OrderWorkflow "Suc k" j] running
        by (simp only: exec_Suc_end)
      also have "\<dots> = Done (Failed Timeout)"
        by (simp add: step_times_out [OF member late] exec_Done)
      finally show ?thesis .
    qed
    with t show ?thesis
      by simp
  qed
  with declared seconds show ?thesis
    by simp
qed

theorem execution_bounded_by_five_minutes_witness:
  "exec stalled_services OrderWorkflow 0 (start_execution OrderWorkflow sample_order) =
     Running ''ValidateOrder'' sample_order 0
   \<and> 300 < 0 + took stalled_services ''ValidateOrder'' sample_order
   \<and> exec stalled_services OrderWorkflow (Suc 0 + 4) (start_execution OrderWorkflow sample_order) =
       Done (Failed Timeout)"
proof -
  have running: "exec stalled_services OrderWorkflow 0 (start_execution OrderWorkflow sample_order) =
      Running ''ValidateOrder'' sample_order 0"
    by (simp add: start_OrderWorkflow)
  have late: "300 < 0 + took stalled_services ''ValidateOrder'' sample_order"
    by (simp add: stalled_services_def)
  from running late show ?thesis
    using execution_bounded_by_five_minutes
      [of stalled_services 0 sample_order "''ValidateOrder''" sample_order 0 4]
    by blast
qed

text \<open>
  C9. ValidateOrder and ProcessPayment are Pass states with a fixed result: whatever the
  order and the services, ValidateOrder puts \<^verbatim>\<open>{ validated: true }\<close> at \<^verbatim>\<open>$.validation\<close> and
  ProcessPayment puts \<^verbatim>\<open>{ paymentStatus: 'SUCCESS' }\<close> at \<^verbatim>\<open>$.payment\<close>. Neither state has a
  failing answer for an order, and in an execution each hands over to the next state unless
  the timeout cuts the execution off.
\<close>

theorem pass_steps_are_constant:
  "stateBody validateOrder = Pass (JObj [(''validated'', JBool True)])
   \<and> resultPath validateOrder = ''$.validation''
   \<and> reference_path ''$.validation'' = Some [''validation'']
   \<and> (\<exists>d. run_state sv validateOrder (JObj kvs) = Inr d
          \<and> get_path [''validation''] d = Some (JObj [(''validated'', JBool True)]))
   \<and> stateBody processPayment = Pass (JObj [(''paymentStatus'', JStr ''SUCCESS'')])
   \<and> resultPath processPayment = ''$.payment''
   \<and> reference_path ''$.payment'' = Some [''payment'']
   \<and> (\<exists>d. run_state sv processPayment (JObj kvs) = Inr d
          \<and> get_path [''payment''] d = Some (JObj [(''paymentStatus'', JStr ''SUCCESS'')]))
   \<and> step sv OrderWorkflow (Running ''ValidateOrder'' (JObj kvs) t) =
       (if 300 < t + took sv ''ValidateOrder'' (JObj kvs) then Done (Failed Timeout)
        else Running ''ProcessPayment''
               (JObj (AList.update ''validation'' (JObj [(''validated'', JBool True)]) kvs))
               (t + took sv ''ValidateOrder'' (JObj kvs)))
   \<and> step sv OrderWorkflow (Running ''ProcessPayment'' (JObj kvs) t) =
       (if 300 < t + took sv ''ProcessPayment'' (JObj kvs) then Done (Failed Timeout)
        else Running ''GenerateReceipt''
               (JObj (AList.update ''payment'' (JObj [(''paymentStatus'', JStr ''SUCCESS'')]) kvs))
               (t + took sv ''ProcessPayment'' (JObj kvs)))"
proof -
  have "run_state sv (validateOrder\<lparr>nextState := None\<rparr>) (JObj kvs) =
      Inr (JObj (AList.update ''validation'' (JObj [(''validated'', JBool True)]) kvs))"
    by (simp add: run_validateOrder)
  moreover have "run_state sv (processPayment\<lparr>nextState := None\<rparr>) (JObj kvs) =
      Inr (JObj (AList.update ''payment'' (JObj [(''paymentStatus'', JStr ''SUCCESS'')]) kvs))"
    by (simp add: run_processPayment)
  moreover have "validateOrder\<lparr>nextState := None\<rparr> = validateOrder"
    "processPayment\<lparr>nextState := None\<rparr> = processPayment"
    by (simp_all add: workflow_defs)
  moreover have "stateBody validateOrder = Pass (JObj [(''validated'', JBool True)])"
    "resultPath validateOrder = ''$.validation''"
    "stateBody processPayment = Pass (JObj [(''paymentStatus'', JStr ''SUCCESS'')])"
    "resultPath processPayment = ''$.payment''"
    by (simp_all add: workflow_defs)
  moreover have "reference_path ''$.validation'' = Some [''validation'']"
    "reference_path ''$.payment'' = Some [''payment'']"
    by (simp_all add: reference_path_def)
  ultimately show ?thesis
    by (simp add: step_simps update_conv')
qed

section \<open>The claims about the store, the parameter and the wiring\<close>

text \<open>
  C7. Against the store modelled from the spec's contract: putting an order that carries a
  string \<^verbatim>\<open>orderId\<close> (the table's partition key) succeeds, and getting that \<^verbatim>\<open>orderId\<close>
  right after returns the order as it was put, whatever the store held before; every other
  key reads as before.
\<close>

theorem get_after_put_returns_order:
  "(key_of ordersTable order = Some k) = (map_of order ''orderId'' = Some (JStr k))
   \<and> (key_of ordersTable order = Some k \<longrightarrow>
        (\<exists>st'. put ordersTable st order = Inr st'
           \<and> get ordersTable st' k = Some order
           \<and> (\<forall>k'. k' \<noteq> k \<longrightarrow> get ordersTable st' k' = get ordersTable st k')))"
  by (auto simp add: key_of_def put_def get_def ordersTable_def
      split: option.splits json.splits)

theorem get_after_put_returns_order_witness:
  "key_of ordersTable [(''orderId'', JStr ''o-1''), (''customerName'', JStr ''Alice'')] = Some ''o-1''
   \<and> (\<exists>st'. put ordersTable Map.empty [(''orderId'', JStr ''o-1''), (''customerName'', JStr ''Alice'')] =
           Inr st'
         \<and> get ordersTable st' ''o-1'' =
             Some [(''orderId'', JStr ''o-1''), (''customerName'', JStr ''Alice'')]
         \<and> get ordersTable st' ''o-2'' = None)"
proof -
  let ?order = "[(''orderId'', JStr ''o-1''), (''customerName'', JStr ''Alice'')]"
  have key: "key_of ordersTable ?order = Some ''o-1''"
    by (simp add: key_of_def ordersTable_def)
  have other: "''o-2'' \<noteq> ''o-1''" and empty: "get ordersTable Map.empty ''o-2'' = None"
    by (simp_all add: get_def)
  from get_after_put_returns_order [of ?order "''o-1''" Map.empty] key
  obtain st' where "put ordersTable Map.empty ?order = Inr st'"
    and "get ordersTable st' ''o-1'' = Some ?order"
    and "\<forall>k'. k' \<noteq> ''o-1'' \<longrightarrow> get ordersTable st' k' = get ordersTable Map.empty k'"
    by blast
  with key other empty show ?thesis
    by metis
qed

text \<open>
  C8, as the code has it. The stack stores one parameter, named
  \<^verbatim>\<open>/orders/config/max-items\<close> and described as the maximum items per order. It is a String
  parameter and its value is the string \<^verbatim>\<open>100\<close>, the decimal digits of the number 100. The
  order-processing function gets the parameter's name in \<^verbatim>\<open>MAX_ITEMS_PARAM\<close>, and the only
  grant on the parameter is that function's read grant.
\<close>

theorem max_items_parameter_is_string_100:
  "get_parameter ssm_parameters ''/orders/config/max-items'' = Some ''100''
   \<and> decimal ''100'' = Some 100
   \<and> map parameterName ssm_parameters = [''/orders/config/max-items'']
   \<and> description appConfigParam = ''Maximum items per order''
   \<and> map_of (environment processOrderFn) ''MAX_ITEMS_PARAM'' =
       Some (Literal ''/orders/config/max-items'')
   \<and> filter (\<lambda>g. fst g = ''AppConfigParam'') grants =
       [(''AppConfigParam'', Read, ''ProcessOrderFunction'')]"
  by (simp add: get_parameter_def ssm_parameters_def appConfigParam_def decimal_def
      digit_value_def processOrderFn_def grants_def)

text \<open>
  C8 as stated fails: no parameter of the stack is named \<^verbatim>\<open>max-items-per-order\<close>; a lookup
  under that key finds nothing.
\<close>

theorem no_parameter_max_items_per_order:
  "get_parameter ssm_parameters ''max-items-per-order'' = None"
  by (simp add: get_parameter_def ssm_parameters_def appConfigParam_def)

text \<open>
  C10. The stack has one SQS event source: it reads the order queue and its consumer is
  \<^verbatim>\<open>processOrderFn\<close>, the function named ProcessOrderFunction. The NotifyCustomer state
  invokes the same construct. The only functions the workflow invokes are the receipt function
  and this one, so the notification step has no implementation of its own: a delivery from
  the queue and the NotifyCustomer step both call ProcessOrderFunction.
\<close>

theorem notify_step_invokes_queue_consumer:
  "eventSources = [\<lparr>sourceQueue = orderQueue, consumer = processOrderFn, batchSize = 10\<rparr>]
   \<and> stateBody notifyCustomer = LambdaInvoke processOrderFn
   \<and> functionName processOrderFn = ''ProcessOrderFunction''
   \<and> codeAsset processOrderFn = ''lambda/process-order''
   \<and> map stateBody (states OrderWorkflow) =
       [Pass (JObj [(''validated'', JBool True)]),
        Pass (JObj [(''paymentStatus'', JStr ''SUCCESS'')]),
        LambdaInvoke generateReceiptFn, LambdaInvoke processOrderFn, Succeed]
   \<and> map (\<lambda>es. deliver sv es batch) eventSources =
       [invoke sv ''ProcessOrderFunction'' (sqs_event batch)]
   \<and> run_state sv notifyCustomer doc =
       (case invoke sv ''ProcessOrderFunction'' doc of
          Inl err \<Rightarrow> Inl (TaskFailed ''NotifyCustomer'' err)
        | Inr payload \<Rightarrow> Inr payload)"
proof -
  have "run_state sv (notifyCustomer\<lparr>nextState := None\<rparr>) doc =
      (case invoke sv ''ProcessOrderFunction'' doc of
         Inl err \<Rightarrow> Inl (TaskFailed ''NotifyCustomer'' err)
       | Inr payload \<Rightarrow> Inr payload)"
    by (rule run_notifyCustomer)
  moreover have "notifyCustomer\<lparr>nextState := None\<rparr> = notifyCustomer"
    by (simp add: notifyCustomer_def tasks_LambdaInvoke_def)
  moreover have "eventSources = [\<lparr>sourceQueue = orderQueue, consumer = processOrderFn, batchSize = 10\<rparr>]"
    by (simp add: eventSources_def addEventSource_def SqsEventSource_def)
  moreover have "map stateBody (states OrderWorkflow) =
       [Pass (JObj [(''validated'', JBool True)]),
        Pass (JObj [(''paymentStatus'', JStr ''SUCCESS'')]),
        LambdaInvoke generateReceiptFn, LambdaInvoke processOrderFn, Succeed]"
    by (simp add: OrderWorkflow_def workflow_definition_def start_chain_def
      validateOrder_def processPayment_def generateReceipt_def notifyCustomer_def
      orderComplete_def sfn_Pass_def tasks_LambdaInvoke_def sfn_Succeed_def)
  moreover have "stateBody notifyCustomer = LambdaInvoke processOrderFn"
    by (simp add: notifyCustomer_def tasks_LambdaInvoke_def)
  moreover have "functionName processOrderFn = ''ProcessOrderFunction''"
    "codeAsset processOrderFn = ''lambda/process-order''"
    by (simp_all add: processOrderFn_def)
  moreover have "map (\<lambda>es. deliver sv es batch) eventSources =
       [invoke sv ''ProcessOrderFunction'' (sqs_event batch)]"
    by (simp add: deliver_def eventSources_def addEventSource_def SqsEventSource_def
      processOrderFn_def)
  ultimately show ?thesis
    by (simp only: simp_thms)
qed

section \<open>The queue and its dead-letter queue\<close>

lemma event_source_of_stack:
  "es \<in> set eventSources \<Longrightarrow>
   es = \<lparr>sourceQueue = orderQueue, consumer = processOrderFn, batchSize = 10\<rparr>"
  by (simp add: eventSources_def addEventSource_def SqsEventSource_def)

lemma queue_names: "queueName orderQueue = ''order-queue''" "queueName orderDlq = ''order-dlq''"
  by (simp_all add: orderQueue_def orderDlq_def)

lemma received_simps:
  "messageId (received m) = messageId m"
  "body (received m) = body m"
  "receiveCount (received m) = Suc (receiveCount m)"
  by (simp_all add: received_def)

lemma ids_received: "map messageId (map received ms) = map messageId ms"
  by (simp add: received_simps)

text \<open>One poll of the stack's event source, with the source's names and numbers put in.\<close>

lemma poll_order_queue:
  assumes "es \<in> set eventSources"
  shows "poll sv es s =
     (let kept = filter (\<lambda>m. receiveCount m < 3) (s ''order-queue'');
          s1 = s(''order-dlq'' :=
                   s ''order-dlq'' @ filter (\<lambda>m. \<not> receiveCount m < 3) (s ''order-queue''),
                 ''order-queue'' := kept);
          batch = map received (take 10 kept)
      in if batch = [] then (s1, [])
         else (case deliver sv es batch of
                 Inr _ \<Rightarrow> (s1(''order-queue'' := drop 10 kept), batch)
               | Inl _ \<Rightarrow> (s1(''order-queue'' := batch @ drop 10 kept), batch)))"
  unfolding event_source_of_stack [OF assms]
  by (simp add: poll_def redrive_def orderQueue_def orderDlq_def Let_def split: sum.splits)

text \<open>
  What a poll can do to the queues: the queue afterwards and the batch hold only messages
  that were in the queue and had not used up their receives, and the dead-letter queue keeps
  what it had and gains the messages that had.
\<close>

lemma poll_frame:
  assumes es: "es \<in> set eventSources" and p: "poll sv es s = (s', batch)"
  shows "messageId ` set (s' ''order-queue'') \<subseteq>
           messageId ` set (filter (\<lambda>m. receiveCount m < 3) (s ''order-queue''))"
    and "messageId ` set batch \<subseteq>
           messageId ` set (filter (\<lambda>m. receiveCount m < 3) (s ''order-queue''))"
    and "s' ''order-dlq'' =
           s ''order-dlq'' @ filter (\<lambda>m. \<not> receiveCount m < 3) (s ''order-queue'')"
proof -
  define kept where "kept = filter (\<lambda>m. receiveCount m < 3) (s ''order-queue'')"
  define K where "K = messageId ` set kept"
  have "messageId ` set (map received (take 10 kept)) = messageId ` set (take 10 kept)"
    by (simp add: image_image received_simps)
  also have "\<dots> \<subseteq> K"
    unfolding K_def by (intro image_mono set_take_subset)
  finally have take_ids: "messageId ` set (map received (take 10 kept)) \<subseteq> K" .
  have drop_ids: "messageId ` set (drop 10 kept) \<subseteq> K"
    unfolding K_def by (intro image_mono set_drop_subset)
  have kept_ids: "messageId ` set kept \<subseteq> K" and none: "messageId ` set [] \<subseteq> K"
    by (simp_all add: K_def)
  from p have forms:
    "(s' ''order-queue'' = kept \<and> batch = [])
     \<or> (s' ''order-queue'' = drop 10 kept \<and> batch = map received (take 10 kept))
     \<or> (s' ''order-queue'' = map received (take 10 kept) @ drop 10 kept
          \<and> batch = map received (take 10 kept))"
    unfolding poll_order_queue [OF es] Let_def kept_def
    by (auto split: if_splits sum.splits)
  have both: "messageId ` set (map received (take 10 kept) @ drop 10 kept) \<subseteq> K"
    using take_ids drop_ids by (simp only: set_append image_Un Un_subset_iff simp_thms)
  from forms consider
      (idle) "s' ''order-queue'' = kept" "batch = []"
    | (deleted) "s' ''order-queue'' = drop 10 kept" "batch = map received (take 10 kept)"
    | (returned) "s' ''order-queue'' = map received (take 10 kept) @ drop 10 kept"
        "batch = map received (take 10 kept)"
    by blast
  then have "messageId ` set (s' ''order-queue'') \<subseteq> K \<and> messageId ` set batch \<subseteq> K"
  proof cases
    case idle
    with kept_ids none show ?thesis by (simp only: simp_thms)
  next
    case deleted
    with drop_ids take_ids show ?thesis by (simp only: simp_thms)
  next
    case returned
    with both take_ids show ?thesis by (simp only: simp_thms)
  qed
  then show "messageId ` set (s' ''order-queue'') \<subseteq>
      messageId ` set (filter (\<lambda>m. receiveCount m < 3) (s ''order-queue''))"
    and "messageId ` set batch \<subseteq>
      messageId ` set (filter (\<lambda>m. receiveCount m < 3) (s ''order-queue''))"
    unfolding K_def kept_def by (simp_all only: simp_thms)
  from p show "s' ''order-dlq'' =
      s ''order-dlq'' @ filter (\<lambda>m. \<not> receiveCount m < 3) (s ''order-queue'')"
    unfolding poll_order_queue [OF es] Let_def
    by (auto split: if_splits sum.splits)
qed

text \<open>
  A message that has used up its receives: the next poll moves it to the dead-letter queue
  and does not deliver it.
\<close>

lemma poll_dead_letters:
  assumes es: "es \<in> set eventSources"
    and member: "m \<in> set (s ''order-queue'')"
    and used: "\<not> receiveCount m < 3"
    and ids: "distinct (map messageId (s ''order-queue''))"
    and p: "poll sv es s = (s', batch)"
  shows "m \<in> set (s' ''order-dlq'')"
    and "messageId m \<notin> messageId ` set (s' ''order-queue'')"
    and "messageId m \<notin> messageId ` set batch"
proof -
  have gone: "messageId m \<notin> messageId ` set (filter (\<lambda>m. receiveCount m < 3) (s ''order-queue''))"
  proof
    assume "messageId m \<in> messageId ` set (filter (\<lambda>m. receiveCount m < 3) (s ''order-queue''))"
    then obtain m' where m': "m' \<in> set (s ''order-queue'')" "receiveCount m' < 3"
      "messageId m' = messageId m"
      by auto
    with ids member have "m' = m"
      by (meson distinct_map inj_onD)
    with m' used show False
      by simp
  qed
  from poll_frame(1) [OF es p] gone show "messageId m \<notin> messageId ` set (s' ''order-queue'')"
    by blast
  from poll_frame(2) [OF es p] gone show "messageId m \<notin> messageId ` set batch"
    by blast
  from poll_frame(3) [OF es p] member used show "m \<in> set (s' ''order-dlq'')"
    by simp
qed

text \<open>Once it is there, no later poll brings it back or delivers it.\<close>

lemma polls_stay_dead:
  assumes es: "es \<in> set eventSources"
    and dead: "m \<in> set (s ''order-dlq'')"
    and gone: "messageId m \<notin> messageId ` set (s ''order-queue'')"
    and p: "polls sv es n s = (s', batches)"
  shows "m \<in> set (s' ''order-dlq'') \<and> messageId m \<notin> messageId ` set (s' ''order-queue'')
     \<and> (\<forall>b \<in> set batches. messageId m \<notin> messageId ` set b)"
  using dead gone p
proof (induction n arbitrary: s batches)
  case 0
  then show ?case by simp
next
  case (Suc n)
  obtain s1 b where first: "poll sv es s = (s1, b)"
    by (cases "poll sv es s")
  obtain s2 bs where later: "polls sv es n s1 = (s2, bs)"
    by (cases "polls sv es n s1")
  from Suc.prems(3) first later have result: "s' = s2" "batches = b # bs"
    by simp_all
  have kept: "messageId ` set (filter (\<lambda>m. receiveCount m < 3) (s ''order-queue''))
      \<subseteq> messageId ` set (s ''order-queue'')"
    by auto
  from poll_frame(1) [OF es first] kept Suc.prems(2)
  have gone1: "messageId m \<notin> messageId ` set (s1 ''order-queue'')"
    by blast
  from poll_frame(2) [OF es first] kept Suc.prems(2)
  have undelivered: "messageId m \<notin> messageId ` set b"
    by blast
  from poll_frame(3) [OF es first] Suc.prems(1) have dead1: "m \<in> set (s1 ''order-dlq'')"
    by simp
  from later result have "polls sv es n s1 = (s', bs)"
    by simp
  from Suc.IH [OF dead1 gone1 this] undelivered result show ?case
    by simp
qed

text \<open>
  The three ways a poll can end: nothing to receive; the batch delivered and deleted; the
  delivery failed and the batch behind at the front of the queue.
\<close>

lemma poll_forms:
  assumes es: "es \<in> set eventSources" and p: "poll sv es s = (s', batch)"
    and kept: "kept = filter (\<lambda>m. receiveCount m < 3) (s ''order-queue'')"
  shows "(kept = [] \<and> s' ''order-queue'' = [] \<and> batch = [])
     \<or> (kept \<noteq> [] \<and> \<not> isl (deliver sv es batch) \<and> s' ''order-queue'' = drop 10 kept
          \<and> batch = map received (take 10 kept))
     \<or> (kept \<noteq> [] \<and> isl (deliver sv es batch)
          \<and> s' ''order-queue'' = map received (take 10 kept) @ drop 10 kept
          \<and> batch = map received (take 10 kept))"
  using p unfolding poll_order_queue [OF es] Let_def kept
  by (auto split: if_splits sum.splits)

lemma ids_returned:
  "map messageId (map received (take n ms) @ drop n ms) = map messageId ms"
  by (metis append_take_drop_id ids_received map_append)

text \<open>Message ids stay distinct in the queue.\<close>

lemma poll_distinct:
  assumes es: "es \<in> set eventSources"
    and ids: "distinct (map messageId (s ''order-queue''))"
    and p: "poll sv es s = (s', batch)"
  shows "distinct (map messageId (s' ''order-queue''))"
proof -
  define kept where "kept = filter (\<lambda>m. receiveCount m < 3) (s ''order-queue'')"
  from ids have kept: "distinct (map messageId kept)"
    unfolding kept_def by (rule distinct_map_filter)
  then have dropped: "distinct (map messageId (drop 10 kept))"
    by (simp add: drop_map [symmetric] del: drop_map)
  from kept have returned: "distinct (map messageId (map received (take 10 kept) @ drop 10 kept))"
    by (simp only: ids_returned)
  from poll_forms [OF es p kept_def] kept dropped returned show ?thesis
    by (elim disjE conjE) (simp_all only: list.map distinct.simps)
qed

lemma polls_distinct:
  assumes es: "es \<in> set eventSources"
    and ids: "distinct (map messageId (s ''order-queue''))"
    and p: "polls sv es n s = (s', batches)"
  shows "distinct (map messageId (s' ''order-queue''))"
  using ids p
proof (induction n arbitrary: s batches)
  case 0
  then show ?case by simp
next
  case (Suc n)
  obtain s1 b where first: "poll sv es s = (s1, b)"
    by (cases "poll sv es s")
  obtain s2 bs where later: "polls sv es n s1 = (s2, bs)"
    by (cases "polls sv es n s1")
  from Suc.prems(2) first later have "s' = s2"
    by simp
  with later have "polls sv es n s1 = (s', bs)"
    by simp
  from Suc.IH [OF poll_distinct [OF es Suc.prems(1) first] this] show ?case .
qed

text \<open>
  One poll and a message of the queue that has receives left: either the message is not in
  the batch and stays in the queue as it is; or it is delivered and the delivery fails, and
  it is in the queue again, received once more; or it is delivered and deleted.
\<close>

lemma poll_message:
  assumes es: "es \<in> set eventSources"
    and member: "m \<in> set (s ''order-queue'')"
    and left: "receiveCount m < 3"
    and ids: "distinct (map messageId (s ''order-queue''))"
    and p: "poll sv es s = (s', batch)"
  shows "(messageId m \<notin> messageId ` set batch \<and> m \<in> set (s' ''order-queue''))
     \<or> (messageId m \<in> messageId ` set batch \<and> isl (deliver sv es batch)
          \<and> received m \<in> set (s' ''order-queue''))
     \<or> (messageId m \<in> messageId ` set batch \<and> \<not> isl (deliver sv es batch)
          \<and> messageId m \<notin> messageId ` set (s' ''order-queue''))"
proof -
  define kept where "kept = filter (\<lambda>m. receiveCount m < 3) (s ''order-queue'')"
  define front where "front = take 10 kept"
  define behind where "behind = drop 10 kept"
  from member left have "m \<in> set kept"
    by (simp add: kept_def)
  moreover have "set kept = set front \<union> set behind"
    unfolding front_def behind_def by (metis append_take_drop_id set_append)
  ultimately have nonempty: "kept \<noteq> []" and where_m: "m \<in> set front \<or> m \<in> set behind"
    by auto
  have "map messageId front @ map messageId behind = map messageId kept"
    unfolding front_def behind_def by (simp flip: map_append)
  moreover from ids have "distinct (map messageId kept)"
    unfolding kept_def by (rule distinct_map_filter)
  ultimately have "distinct (map messageId front @ map messageId behind)"
    by (simp only:)
  then have apart: "messageId ` set front \<inter> messageId ` set behind = {}"
    by simp
  have front_ids: "messageId ` set (map received front) = messageId ` set front"
    by (simp add: image_image received_simps)
  from poll_forms [OF es p kept_def] nonempty
  consider (deleted) "\<not> isl (deliver sv es batch)" "s' ''order-queue'' = behind"
      "batch = map received front"
    | (returned) "isl (deliver sv es batch)" "s' ''order-queue'' = map received front @ behind"
      "batch = map received front"
    unfolding front_def [symmetric] behind_def [symmetric] by blast
  then show ?thesis
  proof cases
    case deleted
    from where_m show ?thesis
    proof
      assume "m \<in> set front"
      with apart have "messageId m \<in> messageId ` set front" "messageId m \<notin> messageId ` set behind"
        by auto
      with deleted front_ids show ?thesis
        by simp
    next
      assume "m \<in> set behind"
      with apart have "messageId m \<notin> messageId ` set front"
        by auto
      with deleted front_ids \<open>m \<in> set behind\<close> show ?thesis
        by simp
    qed
  next
    case returned
    from where_m show ?thesis
    proof
      assume "m \<in> set front"
      then have "messageId m \<in> messageId ` set front" "received m \<in> set (map received front)"
        by auto
      with returned front_ids show ?thesis
        by simp
    next
      assume "m \<in> set behind"
      with apart have "messageId m \<notin> messageId ` set front"
        by auto
      with returned front_ids \<open>m \<in> set behind\<close> show ?thesis
        by simp
    qed
  qed
qed
text \<open>
  A message of the queue followed through any number of polls in which each of its deliveries
  fails. The receives it had and its deliveries never add up to more than three. It is in
  the queue with all of them counted, or they add up to three and it has been moved to the
  dead-letter queue.
\<close>

lemma polls_message:
  assumes es: "es \<in> set eventSources"
    and ids: "distinct (map messageId (s ''order-queue''))"
    and member: "m \<in> set (s ''order-queue'')"
    and bound: "receiveCount m \<le> 3"
    and p: "polls sv es k s = (sk, bs)"
    and failed: "\<forall>b \<in> set bs. messageId m \<in> messageId ` set b \<longrightarrow> isl (deliver sv es b)"
  shows "receiveCount m + length (filter (\<lambda>b. messageId m \<in> messageId ` set b) bs) \<le> 3
     \<and> (m\<lparr>receiveCount := receiveCount m + length (filter (\<lambda>b. messageId m \<in> messageId ` set b) bs)\<rparr>
            \<in> set (sk ''order-queue'')
          \<or> (receiveCount m + length (filter (\<lambda>b. messageId m \<in> messageId ` set b) bs) = 3
               \<and> m\<lparr>receiveCount := 3\<rparr> \<in> set (sk ''order-dlq'')
               \<and> messageId m \<notin> messageId ` set (sk ''order-queue'')))"
  using ids member bound p failed
proof (induction k arbitrary: s m bs)
  case 0
  then show ?case by simp
next
  case (Suc k)
  let ?d = "\<lambda>bs. length (filter (\<lambda>b. messageId m \<in> messageId ` set b) bs)"
  obtain s1 b where first: "poll sv es s = (s1, b)"
    by (cases "poll sv es s")
  obtain s2 bs1 where "polls sv es k s1 = (s2, bs1)"
    by (cases "polls sv es k s1")
  with Suc.prems(4) first have later: "polls sv es k s1 = (sk, bs1)" and bs: "bs = b # bs1"
    by simp_all
  from Suc.prems(5) bs
  have failed_b: "messageId m \<in> messageId ` set b \<longrightarrow> isl (deliver sv es b)"
    and failed_later: "\<forall>b \<in> set bs1. messageId m \<in> messageId ` set b \<longrightarrow> isl (deliver sv es b)"
    by simp_all
  note ids1 = poll_distinct [OF es Suc.prems(1) first]
  show ?case
  proof (cases "receiveCount m < 3")
    case True
    from poll_message [OF es Suc.prems(2) True Suc.prems(1) first] failed_b
    consider (waiting) "messageId m \<notin> messageId ` set b" "m \<in> set (s1 ''order-queue'')"
      | (returned) "messageId m \<in> messageId ` set b" "received m \<in> set (s1 ''order-queue'')"
      by blast
    then show ?thesis
    proof cases
      case waiting
      from waiting(1) bs have "?d bs = ?d bs1"
        by simp
      with Suc.IH [OF ids1 waiting(2) Suc.prems(3) later failed_later] show ?thesis
        by simp
    next
      case returned
      from returned(1) bs have d: "?d bs = Suc (?d bs1)"
        by simp
      from True have bound1: "receiveCount (received m) \<le> 3"
        by (simp add: received_simps)
      from failed_later
      have failed1: "\<forall>b \<in> set bs1. messageId (received m) \<in> messageId ` set b \<longrightarrow>
          isl (deliver sv es b)"
        by (simp add: received_simps)
      have same: "received m\<lparr>receiveCount := x\<rparr> = m\<lparr>receiveCount := x\<rparr>" for x
        by (simp add: received_def)
      from Suc.IH [OF ids1 returned(2) bound1 later failed1] d show ?thesis
        by (simp add: received_simps same)
    qed
  next
    case False
    with Suc.prems(3) have three: "receiveCount m = 3"
      by simp
    note moved = poll_dead_letters [OF es Suc.prems(2) False Suc.prems(1) first]
    from polls_stay_dead [OF es moved(1) moved(2) later]
    have dead: "m \<in> set (sk ''order-dlq'')"
      and gone: "messageId m \<notin> messageId ` set (sk ''order-queue'')"
      and undelivered: "\<forall>b \<in> set bs1. messageId m \<notin> messageId ` set b"
      by simp_all
    from undelivered have "filter (\<lambda>b. messageId m \<in> messageId ` set b) bs1 = []"
      by (simp add: filter_empty_conv)
    with moved(3) bs have none: "?d bs = 0"
      by simp
    from three have m3: "m\<lparr>receiveCount := 3\<rparr> = m"
      by simp
    from dead gone none three show ?thesis
      by (simp add: m3)
  qed
qed

text \<open>
  C6. The order queue redrives to the dead-letter queue \<^verbatim>\<open>order-dlq\<close> with
  \<^verbatim>\<open>maxReceiveCount: 3\<close>, and nothing consumes the dead-letter queue. Take any message of
  the order queue, wherever it stands in the queue, and any number of polls of the event
  source in which each delivery of the message fails. Counting the receives the message
  already had (none for a new message), it is delivered at most three times. Once its failed
  deliveries have brought the count to three, then after any further polls, whatever their
  outcome, the message is in the dead-letter queue with a receive count of three, it is no
  longer in the order queue, and no further batch delivers it to the consumer.
\<close>

theorem dead_lettered_after_three_failed_deliveries:
  assumes es: "es \<in> set eventSources"
    and member: "m \<in> set (s (queueName orderQueue))"
    and bound: "receiveCount m \<le> 3"
    and ids: "distinct (map messageId (s (queueName orderQueue)))"
    and first: "polls sv es k s = (sk, bs)"
    and failed: "\<forall>b \<in> set bs. messageId m \<in> messageId ` set b \<longrightarrow> isl (deliver sv es b)"
  shows "deadLetterQueue orderQueue =
           Some \<lparr>dlqQueueName = queueName orderDlq, maxReceiveCount = 3\<rparr>
     \<and> filter (\<lambda>e. queueName (sourceQueue e) = queueName orderDlq) eventSources = []
     \<and> receiveCount m + length (filter (\<lambda>b. messageId m \<in> messageId ` set b) bs) \<le> 3
     \<and> (receiveCount m + length (filter (\<lambda>b. messageId m \<in> messageId ` set b) bs) = 3
          \<and> polls sv es (Suc n) sk = (s', bs') \<longrightarrow>
            m\<lparr>receiveCount := 3\<rparr> \<in> set (s' (queueName orderDlq))
            \<and> messageId m \<notin> messageId ` set (s' (queueName orderQueue))
            \<and> (\<forall>b \<in> set bs'. messageId m \<notin> messageId ` set b))"
proof -
  let ?d = "length (filter (\<lambda>b. messageId m \<in> messageId ` set b) bs)"
  let ?m3 = "m\<lparr>receiveCount := 3\<rparr>"
  from member ids have member0: "m \<in> set (s ''order-queue'')"
    and ids0: "distinct (map messageId (s ''order-queue''))"
    by (simp_all add: queue_names)
  note tracked = polls_message [OF es ids0 member0 bound first failed]
  have config: "deadLetterQueue orderQueue =
      Some \<lparr>dlqQueueName = queueName orderDlq, maxReceiveCount = 3\<rparr>"
    by (simp add: orderQueue_def)
  have unread: "filter (\<lambda>e. queueName (sourceQueue e) = queueName orderDlq) eventSources = []"
    by (simp add: eventSources_def addEventSource_def SqsEventSource_def orderQueue_def
        orderDlq_def)
  have at_most: "receiveCount m + ?d \<le> 3"
    using tracked by (rule conjunct1)
  have dead_lettered: "?m3 \<in> set (s' (queueName orderDlq))
      \<and> messageId m \<notin> messageId ` set (s' (queueName orderQueue))
      \<and> (\<forall>b \<in> set bs'. messageId m \<notin> messageId ` set b)"
    if both: "receiveCount m + ?d = 3 \<and> polls sv es (Suc n) sk = (s', bs')"
  proof -
    from both have thrice: "receiveCount m + ?d = 3"
      and later: "polls sv es (Suc n) sk = (s', bs')"
      by (rule conjunct1, rule conjunct2)
    obtain s4 b4 where p4: "poll sv es sk = (s4, b4)"
      by (cases "poll sv es sk")
    obtain s5 bs5 where "polls sv es n s4 = (s5, bs5)"
      by (cases "polls sv es n s4")
    with later p4 have p5: "polls sv es n s4 = (s', bs5)" and bs': "bs' = b4 # bs5"
      by simp_all
    have id3: "messageId ?m3 = messageId m"
      by simp
    from tracked [THEN conjunct2]
    have "?m3 \<in> set (sk ''order-queue'')
        \<or> (?m3 \<in> set (sk ''order-dlq'') \<and> messageId m \<notin> messageId ` set (sk ''order-queue''))"
      unfolding thrice by blast
    then have "?m3 \<in> set (s4 ''order-dlq'') \<and> messageId ?m3 \<notin> messageId ` set (s4 ''order-queue'')
        \<and> messageId ?m3 \<notin> messageId ` set b4"
    proof
      assume queued: "?m3 \<in> set (sk ''order-queue'')"
      have used: "\<not> receiveCount ?m3 < 3"
        by simp
      note moved = poll_dead_letters [OF es queued used polls_distinct [OF es ids0 first] p4]
      from moved(1) moved(2) moved(3) show ?thesis
        by (intro conjI)
    next
      assume dead: "?m3 \<in> set (sk ''order-dlq'')
          \<and> messageId m \<notin> messageId ` set (sk ''order-queue'')"
      have one: "polls sv es (Suc 0) sk = (s4, [b4])"
        using p4 by simp
      from dead have "messageId ?m3 \<notin> messageId ` set (sk ''order-queue'')"
        unfolding id3 by (rule conjunct2)
      from polls_stay_dead [OF es dead [THEN conjunct1] this one] show ?thesis
        by simp
    qed
    then have dead4: "?m3 \<in> set (s4 ''order-dlq'')"
      and gone4: "messageId ?m3 \<notin> messageId ` set (s4 ''order-queue'')"
      and skipped: "messageId ?m3 \<notin> messageId ` set b4"
      by blast+
    from polls_stay_dead [OF es dead4 gone4 p5] skipped bs'
    have "?m3 \<in> set (s' ''order-dlq'') \<and> messageId ?m3 \<notin> messageId ` set (s' ''order-queue'')
        \<and> (\<forall>b \<in> set bs'. messageId ?m3 \<notin> messageId ` set b)"
      by simp
    then show ?thesis
      unfolding id3 queue_names .
  qed
  have "receiveCount m + ?d = 3 \<and> polls sv es (Suc n) sk = (s', bs') \<longrightarrow>
      ?m3 \<in> set (s' (queueName orderDlq))
      \<and> messageId m \<notin> messageId ` set (s' (queueName orderQueue))
      \<and> (\<forall>b \<in> set bs'. messageId m \<notin> messageId ` set b)"
  proof
    assume "receiveCount m + ?d = 3 \<and> polls sv es (Suc n) sk = (s', bs')"
    then show "?m3 \<in> set (s' (queueName orderDlq))
      \<and> messageId m \<notin> messageId ` set (s' (queueName orderQueue))
      \<and> (\<forall>b \<in> set bs'. messageId m \<notin> messageId ` set b)"
      by (rule dead_lettered)
  qed
  with config unread at_most show ?thesis
    by (intro conjI)
qed
theorem dead_lettered_after_three_failed_deliveries_witness:
  "second_message \<in> set (sample_queues (queueName orderQueue))
   \<and> sample_queues (queueName orderQueue) = [sample_message, second_message]
   \<and> receiveCount second_message = 0
   \<and> list_all (\<lambda>b. isl (deliver failing_services (SqsEventSource orderQueue 10 processOrderFn) b))
        (snd (polls failing_services (SqsEventSource orderQueue 10 processOrderFn) 3 sample_queues))
   \<and> map (map messageId)
        (snd (polls failing_services (SqsEventSource orderQueue 10 processOrderFn) 3 sample_queues)) =
       [[''m-1'', ''m-2''], [''m-1'', ''m-2''], [''m-1'', ''m-2'']]
   \<and> second_message\<lparr>receiveCount := 3\<rparr> \<in>
       set (fst (polls failing_services (SqsEventSource orderQueue 10 processOrderFn) (Suc 0)
                 (fst (polls failing_services (SqsEventSource orderQueue 10 processOrderFn) 3
                        sample_queues)))
              (queueName orderDlq))
   \<and> messageId second_message \<notin>
       messageId ` set (fst (polls failing_services (SqsEventSource orderQueue 10 processOrderFn) (Suc 0)
                 (fst (polls failing_services (SqsEventSource orderQueue 10 processOrderFn) 3
                        sample_queues)))
              (queueName orderQueue))"
proof -
  let ?es = "SqsEventSource orderQueue 10 processOrderFn"
  let ?three = "polls failing_services ?es 3 sample_queues"
  let ?four = "polls failing_services ?es (Suc 0) (fst ?three)"
  have es: "?es \<in> set eventSources"
    by (simp add: eventSources_def addEventSource_def)
  have queue: "sample_queues (queueName orderQueue) = [sample_message, second_message]"
    by (simp add: sample_queues_def queue_names)
  then have member: "second_message \<in> set (sample_queues (queueName orderQueue))"
    by simp
  have fresh: "receiveCount second_message = 0" and bound: "receiveCount second_message \<le> 3"
    by (simp_all add: second_message_def)
  from queue have ids: "distinct (map messageId (sample_queues (queueName orderQueue)))"
    by (simp add: sample_message_def second_message_def)
  have three: "?three = (fst ?three, snd ?three)" and later: "?four = (fst ?four, snd ?four)"
    by simp_all
  have fails: "isl (deliver failing_services ?es b)" for b
    by (simp add: deliver_def failing_services_def)
  then have failed: "\<forall>b \<in> set (snd ?three).
      messageId second_message \<in> messageId ` set b \<longrightarrow> isl (deliver failing_services ?es b)"
    by simp
  have n3: "(3::nat) = Suc (Suc (Suc 0))"
    by simp
  have batches: "map (map messageId) (snd ?three) =
      [[''m-1'', ''m-2''], [''m-1'', ''m-2''], [''m-1'', ''m-2'']]"
    unfolding n3
    by (simp add: poll_order_queue [OF es] Let_def sample_queues_def sample_message_def
        second_message_def received_def deliver_def failing_services_def)
  have "filter (\<lambda>b. messageId second_message \<in> messageId ` set b) (snd ?three) = snd ?three"
    unfolding n3
    by (simp add: poll_order_queue [OF es] Let_def sample_queues_def sample_message_def
        second_message_def received_def deliver_def failing_services_def)
  moreover from batches have "length (snd ?three) = 3"
    using length_map [of "map messageId" "snd ?three"] by simp
  ultimately have thrice: "receiveCount second_message +
      length (filter (\<lambda>b. messageId second_message \<in> messageId ` set b) (snd ?three)) = 3"
    using fresh by simp
  from dead_lettered_after_three_failed_deliveries [OF es member bound ids three failed,
      of 0 "fst ?four" "snd ?four"] thrice later
  have "second_message\<lparr>receiveCount := 3\<rparr> \<in> set (fst ?four (queueName orderDlq))"
    and "messageId second_message \<notin> messageId ` set (fst ?four (queueName orderQueue))"
    by blast+
  with member queue fresh fails batches show ?thesis
    by (simp add: list_all_iff)
qed

end
